theory Spec2Isabelle
  imports Main "HOL-Library.Word" "HOL-Library.Monad_Syntax"
begin

section \<open>pixelstats/SysfsCollector.cpp: the sysfs statistics collector\<close>

text \<open>
  The collector reads a fixed set of sysfs nodes and forwards what it parses to the
  IPixelStats service. The embedding keeps the shape of the C++: one HOL function for each
  method of \<open>SysfsCollector\<close>, over an explicit \<open>world\<close> that holds the file system, the
  service handle \<open>pixelstats_\<close> and the trace of every effect (file reads and writes, log
  lines, service calls) in the order the code performs them. A method that would
  dereference a null \<open>pixelstats_\<close> returns \<open>None\<close>.
\<close>

subsection \<open>The paths\<close>

definition kSlowioReadCntPath :: string where
  "kSlowioReadCntPath = ''/sys/devices/platform/soc/1d84000.ufshc/slowio_read_cnt''"

definition kSlowioWriteCntPath :: string where
  "kSlowioWriteCntPath = ''/sys/devices/platform/soc/1d84000.ufshc/slowio_write_cnt''"

definition kSlowioUnmapCntPath :: string where
  "kSlowioUnmapCntPath = ''/sys/devices/platform/soc/1d84000.ufshc/slowio_unmap_cnt''"

definition kSlowioSyncCntPath :: string where
  "kSlowioSyncCntPath = ''/sys/devices/platform/soc/1d84000.ufshc/slowio_sync_cnt''"

definition kCycleCountBinsPath :: string where
  "kCycleCountBinsPath = ''/sys/class/power_supply/maxfg/cycle_counts_bins''"

definition kImpedancePath :: string where
  "kImpedancePath = ''/sys/class/misc/msm_cirrus_playback/resistance_left_right''"

definition kCodecPath :: string where
  "kCodecPath =
     ''/sys/devices/platform/soc/171c0000.slim/tavil-slim-pgd/tavil_codec/codec_state''"

subsection \<open>The IPixelStats interface, as this file calls it\<close>

text \<open>
  The enumerations are declared by the HAL, outside this file; only the enumerators the
  collector names are listed. \<open>int32_t\<close> arguments are 32-bit words, read with \<open>sint\<close>.
\<close>

type_synonym int32 = "32 word"

datatype IoOperation = READ | WRITE | UNMAP | SYNC

datatype HardwareType = CODEC

datatype HardwareErrorCode = COMPLETE

text \<open>
  One constructor for each report method. The impedance is passed as \<open>float * 1000\<close>
  converted to \<open>int32_t\<close>; C++ defines that conversion only when the truncated value fits,
  so the argument is \<open>None\<close> where it does not.
\<close>

datatype report =
    ChargeCycles string
  | HardwareFailed HardwareType int32 HardwareErrorCode
  | SlowIo IoOperation int32
  | SpeakerImpedance int32 "int32 option"

subsection \<open>The world and its trace\<close>

datatype event =
    GetService bool             \<comment> \<open>\<open>IPixelStats::tryGetService()\<close> and whether it gave a handle\<close>
  | ReleaseService              \<comment> \<open>\<open>pixelstats_.clear()\<close>\<close>
  | FileRead string bool        \<comment> \<open>\<open>ReadFileToString(path, ..)\<close> and its result\<close>
  | FileWrite string string bool  \<comment> \<open>\<open>WriteStringToFile(content, path, true)\<close>: path, content, result\<close>
  | ALOGE string "string list"  \<comment> \<open>format string and its string arguments (\<open>strerror\<close> left out)\<close>
  | Report report               \<comment> \<open>a call through \<open>pixelstats_\<close>\<close>
  | Sleep nat                   \<comment> \<open>\<open>sleep(seconds)\<close>\<close>
  | TimerArmed int int          \<comment> \<open>\<open>timerfd_settime\<close>: \<open>it_value.tv_sec\<close>, \<open>it_interval.tv_sec\<close>\<close>

text \<open>
  \<open>files\<close> gives the content \<open>ReadFileToString\<close> returns for a path, \<open>None\<close> where it
  fails. \<open>writable\<close> says whether \<open>WriteStringToFile\<close> succeeds on a path. \<open>service_up n\<close>
  is the outcome of the \<open>n\<close>-th call of \<open>tryGetService\<close>, and \<open>lookups\<close> counts the calls
  made so far. \<open>pixelstats\<close> is the member \<open>pixelstats_\<close>: whether it holds a handle.
\<close>

record world =
  files :: "string \<Rightarrow> string option"
  writable :: "string \<Rightarrow> bool"
  service_up :: "nat \<Rightarrow> bool"
  lookups :: nat
  pixelstats :: bool
  trace :: "event list"

definition emit :: "event \<Rightarrow> world \<Rightarrow> world" where
  "emit e w = w\<lparr>trace := trace w @ [e]\<rparr>"

definition ReadFileToString :: "string \<Rightarrow> world \<Rightarrow> string option \<times> world" where
  "ReadFileToString path w =
     (case files w path of
        None \<Rightarrow> (None, emit (FileRead path False) w)
      | Some content \<Rightarrow> (Some content, emit (FileRead path True) w))"

text \<open>
  The source nodes are treated as ordinary files: a write that succeeds leaves the
  written text as the content; one that fails (the open fails) leaves the file as it was.
\<close>

definition WriteStringToFile :: "string \<Rightarrow> string \<Rightarrow> world \<Rightarrow> bool \<times> world" where
  "WriteStringToFile content path w =
     (if writable w path
      then (True, emit (FileWrite path content True) (w\<lparr>files := (files w)(path \<mapsto> content)\<rparr>))
      else (False, emit (FileWrite path content False) w))"

text \<open>
  A call \<open>pixelstats_->report...(...)\<close>: a null \<open>pixelstats_\<close> is a null dereference. With
  a handle the call is recorded and control returns: the collector never looks at the
  result of a report.
\<close>

definition call_pixelstats :: "report \<Rightarrow> world \<Rightarrow> world option" where
  "call_pixelstats r w = (if pixelstats w then Some (emit (Report r) w) else None)"

subsection \<open>C library pieces the collector calls\<close>

definition isspace :: "char \<Rightarrow> bool" where
  "isspace c \<longleftrightarrow> c = CHR '' '' \<or> (9 \<le> (of_char c :: nat) \<and> (of_char c :: nat) \<le> 13)"

definition isdigit :: "char \<Rightarrow> bool" where
  "isdigit c \<longleftrightarrow> 48 \<le> (of_char c :: nat) \<and> (of_char c :: nat) \<le> 57"

text \<open>\<open>std::string::c_str()\<close> read as a C string: the bytes before the first NUL.\<close>

definition c_str :: "string \<Rightarrow> string" where
  "c_str s = takeWhile (\<lambda>c. c \<noteq> CHR 0x00) s"

fun decimal :: "int \<Rightarrow> string \<Rightarrow> int" where
  "decimal acc [] = acc"
| "decimal acc (c # cs) = decimal (10 * acc + (of_char c - 48)) cs"

text \<open>
  \<open>sscanf(s, "%d", &n)\<close>: white space is skipped, then an optional sign and decimal
  digits are taken, from at most 512 characters (the scanner's buffer). With no digit
  nothing is assigned and the call does not return 1: \<open>None\<close>. Otherwise the digits are
  converted as \<open>strtoimax\<close> does (clamped to 64 bits) and the result is stored into the
  \<open>int32_t\<close>, keeping its low 32 bits.
\<close>

definition clamp_intmax :: "int \<Rightarrow> int" where
  "clamp_intmax v = max (- (2 ^ 63)) (min (2 ^ 63 - 1) v)"

definition sscanf_d :: "string \<Rightarrow> int32 option" where
  "sscanf_d s =
     (let t = take 512 (dropWhile isspace s);
          neg = (case t of c # _ \<Rightarrow> c = CHR ''-'' | [] \<Rightarrow> False);
          u = (case t of c # r \<Rightarrow> if c = CHR ''-'' \<or> c = CHR ''+'' then r else t | [] \<Rightarrow> t);
          ds = takeWhile isdigit u
      in if ds = [] then None
         else Some (word_of_int
                (clamp_intmax (if neg then - decimal 0 ds else decimal 0 ds))))"

subsection \<open>Slow I/O counters\<close>

definition reportSlowIoFromFile :: "string \<Rightarrow> IoOperation \<Rightarrow> world \<Rightarrow> world option" where
  "reportSlowIoFromFile path operation w =
     (case ReadFileToString path w of
        (None, w1) \<Rightarrow> Some (emit (ALOGE ''Unable to read %s - %s'' [path]) w1)
      | (Some file_contents, w1) \<Rightarrow>
          do {
            w2 \<leftarrow> (case sscanf_d (c_str file_contents) of
                     None \<Rightarrow>
                       Some (emit (ALOGE ''Unable to parse %s from file %s to int.''
                                     [c_str file_contents, path]) w1)
                   | Some slow_io_count \<Rightarrow>
                       if 0 < sint slow_io_count
                       then call_pixelstats (SlowIo operation slow_io_count) w1
                       else Some w1);
            \<comment> \<open>Clear the stats\<close>
            (case WriteStringToFile ''0'' path w2 of
               (False, w3) \<Rightarrow> Some (emit (ALOGE ''Unable to clear SlowIO entry - %s'' []) w3)
             | (True, w3) \<Rightarrow> Some w3)
          })"

definition logSlowIO :: "world \<Rightarrow> world option" where
  "logSlowIO w =
     do {
       w1 \<leftarrow> reportSlowIoFromFile kSlowioReadCntPath READ w;
       w2 \<leftarrow> reportSlowIoFromFile kSlowioWriteCntPath WRITE w1;
       w3 \<leftarrow> reportSlowIoFromFile kSlowioUnmapCntPath UNMAP w2;
       reportSlowIoFromFile kSlowioSyncCntPath SYNC w3
     }"

subsection \<open>Battery charge cycles\<close>

text \<open>
  \<open>android::base::Trim\<close> strips the white space (\<open>isspace\<close>) at both ends of a string.
  \<open>std::replace(first, last, ' ', ',')\<close> turns every space character into a comma.
\<close>

definition Trim :: "string \<Rightarrow> string" where
  "Trim s = rev (dropWhile isspace (rev (dropWhile isspace s)))"

definition replace :: "char \<Rightarrow> char \<Rightarrow> string \<Rightarrow> string" where
  "replace old new s = map (\<lambda>c. if c = old then new else c) s"

definition logBatteryChargeCycles :: "world \<Rightarrow> world option" where
  "logBatteryChargeCycles w =
     (case ReadFileToString kCycleCountBinsPath w of
        (None, w1) \<Rightarrow> Some (emit (ALOGE ''Unable to read battery charge cycles - %s'' []) w1)
      | (Some file_contents, w1) \<Rightarrow>
          call_pixelstats (ChargeCycles (Trim (replace CHR '' '' CHR '','' file_contents))) w1)"

subsection \<open>Codec state\<close>

definition logCodecFailed :: "world \<Rightarrow> world option" where
  "logCodecFailed w =
     (case ReadFileToString kCodecPath w of
        (None, w1) \<Rightarrow> Some (emit (ALOGE ''Unable to read codec state - %s'' []) w1)
      | (Some file_contents, w1) \<Rightarrow>
          if file_contents = ''0'' then Some w1
          else call_pixelstats (HardwareFailed CODEC 0 COMPLETE) w1)"

subsection \<open>Speaker impedance\<close>

text \<open>
  A \<open>float\<close> is a binary32 value: \<open>Finite m e\<close> stands for \<open>m * 2 ^ e\<close> (the sign of a
  zero is not kept: nothing below depends on it).
\<close>

datatype f32 = Finite int int | Infinity bool | NaN

text \<open>The number of binary digits of a positive integer.\<close>

function bitlen :: "int \<Rightarrow> int" where
  "bitlen n = (if n \<le> 0 then 0 else 1 + bitlen (n div 2))"
  by pat_completeness auto
termination
  by (relation "measure nat") auto

declare bitlen.simps [simp del]

text \<open>\<open>a / d\<close> rounded to the nearest integer, a tie to the even one.\<close>

definition round_nearest_even :: "int \<Rightarrow> int \<Rightarrow> int" where
  "round_nearest_even a d =
     (let q = a div d; r = a mod d
      in if d < 2 * r \<or> (2 * r = d \<and> odd q) then q + 1 else q)"

text \<open>
  The binary32 value nearest to \<open>\<plusminus> a / d\<close> (\<open>a \<ge> 0\<close>, \<open>d > 0\<close>), ties to even: \<open>e\<close> is the binary
  exponent of \<open>a / d\<close>, \<open>q\<close> the weight of the last of the 24 significand bits (not below
  \<open>-149\<close>, where the subnormals end), and a result of \<open>2 ^ 128\<close> or more is an infinity.
\<close>

definition float_of_ratio :: "bool \<Rightarrow> int \<Rightarrow> int \<Rightarrow> f32" where
  "float_of_ratio neg a d =
     (if a = 0 then Finite 0 0
      else
        let e0 = bitlen a - bitlen d;
            e = (if 0 \<le> e0 then (if d * 2 ^ nat e0 \<le> a then e0 else e0 - 1)
                 else (if d \<le> a * 2 ^ nat (- e0) then e0 else e0 - 1));
            q = max (e - 23) (- 149);
            m = (if 0 \<le> q then round_nearest_even a (d * 2 ^ nat q)
                 else round_nearest_even (a * 2 ^ nat (- q)) d)
        in if 128 < bitlen m + q then Infinity neg
           else Finite (if neg then - m else m) q)"

definition f32_of_int :: "int \<Rightarrow> f32" where
  "f32_of_int i = float_of_ratio (i < 0) \<bar>i\<bar> 1"

fun f32_mul :: "f32 \<Rightarrow> f32 \<Rightarrow> f32" where
  "f32_mul (Finite m1 e1) (Finite m2 e2) =
     (let m = m1 * m2; e = e1 + e2
      in if 0 \<le> e then float_of_ratio (m < 0) (\<bar>m\<bar> * 2 ^ nat e) 1
         else float_of_ratio (m < 0) \<bar>m\<bar> (2 ^ nat (- e)))"
| "f32_mul (Infinity s) (Finite m e) =
     (if m = 0 then NaN else Infinity (s \<noteq> (m < 0)))"
| "f32_mul (Finite m e) (Infinity s) =
     (if m = 0 then NaN else Infinity (s \<noteq> (m < 0)))"
| "f32_mul (Infinity s1) (Infinity s2) = Infinity (s1 \<noteq> s2)"
| "f32_mul NaN _ = NaN"
| "f32_mul _ NaN = NaN"

text \<open>
  The conversion of a \<open>float\<close> to \<open>int32_t\<close> drops the fraction; it is defined only when
  the result fits the type.
\<close>

definition f32_to_int32 :: "f32 \<Rightarrow> int32 option" where
  "f32_to_int32 x =
     (case x of
        Finite m e \<Rightarrow>
          (let t = (if 0 \<le> e then m * 2 ^ nat e else sgn m * (\<bar>m\<bar> div 2 ^ nat (- e)))
           in if - (2 ^ 31) \<le> t \<and> t < 2 ^ 31 then Some (word_of_int t) else None)
      | Infinity s \<Rightarrow> None
      | NaN \<Rightarrow> None)"

text \<open>
  The \<open>%g\<close> directive of \<open>sscanf\<close> takes its input item with the C library's scanner
  \<open>parsefloat\<close>, a state machine over the characters: it accepts an optional sign and
  then a decimal constant, a hexadecimal constant (\<open>0x\<close>, with a binary exponent after
  \<open>p\<close>), \<open>inf\<close> or \<open>infinity\<close>, or \<open>nan\<close> with an optional \<open>(...)\<close>, in either case of
  letters. It remembers the last position at which what it has read is a complete
  constant (\<open>commit\<close>) and gives the characters read past it back to the input.
\<close>

definition is_sign :: "char \<Rightarrow> bool" where
  "is_sign c \<longleftrightarrow> c = CHR ''-'' \<or> c = CHR ''+''"

definition isxdigit :: "char \<Rightarrow> bool" where
  "isxdigit c \<longleftrightarrow>
     isdigit c \<or> (97 \<le> (of_char c :: nat) \<and> (of_char c :: nat) \<le> 102)
       \<or> (65 \<le> (of_char c :: nat) \<and> (of_char c :: nat) \<le> 70)"

definition isalnum :: "char \<Rightarrow> bool" where
  "isalnum c \<longleftrightarrow>
     isdigit c \<or> (97 \<le> (of_char c :: nat) \<and> (of_char c :: nat) \<le> 122)
       \<or> (65 \<le> (of_char c :: nat) \<and> (of_char c :: nat) \<le> 90)"

datatype scan_state =
  S_START | S_GOTSIGN | S_INF | S_NAN | S_MAYBEHEX | S_DIGITS | S_FRAC | S_EXP | S_EXPDIGITS

record parser =
  state :: scan_state
  infnanpos :: int
  gotmantdig :: bool
  ishex :: bool

text \<open>
  One function for each \<open>case\<close> of the scanner's \<open>switch\<close>, on the character \<open>c\<close>. The
  result is \<open>None\<close> for \<open>goto parsedone\<close>; otherwise the character is taken, and the result
  gives the scanner afterwards and whether \<open>commit\<close> is set to this character. A
  \<open>goto reswitch\<close> is the call of the next state's function on the same character.
\<close>

definition is_mantissa_digit :: "parser \<Rightarrow> char \<Rightarrow> bool" where
  "is_mantissa_digit ps c \<longleftrightarrow> (ishex ps \<and> isxdigit c) \<or> isdigit c"

definition case_S_EXPDIGITS :: "parser \<Rightarrow> char \<Rightarrow> (parser \<times> bool) option" where
  "case_S_EXPDIGITS ps c = (if isdigit c then Some (ps, True) else None)"

definition case_S_EXP :: "parser \<Rightarrow> char \<Rightarrow> (parser \<times> bool) option" where
  "case_S_EXP ps c =
     (if is_sign c then Some (ps\<lparr>state := S_EXPDIGITS\<rparr>, False)
      else case_S_EXPDIGITS (ps\<lparr>state := S_EXPDIGITS\<rparr>) c)"

definition case_S_FRAC :: "parser \<Rightarrow> char \<Rightarrow> (parser \<times> bool) option" where
  "case_S_FRAC ps c =
     (if ((c = CHR ''E'' \<or> c = CHR ''e'') \<and> \<not> ishex ps) \<or>
         ((c = CHR ''P'' \<or> c = CHR ''p'') \<and> ishex ps)
      then (if \<not> gotmantdig ps then None else Some (ps\<lparr>state := S_EXP\<rparr>, False))
      else if is_mantissa_digit ps c then Some (ps\<lparr>gotmantdig := True\<rparr>, True)
      else None)"

definition case_S_DIGITS :: "parser \<Rightarrow> char \<Rightarrow> (parser \<times> bool) option" where
  "case_S_DIGITS ps c =
     (if is_mantissa_digit ps c then Some (ps\<lparr>gotmantdig := True\<rparr>, True)
      else if c = CHR ''.'' then Some (ps\<lparr>state := S_FRAC\<rparr>, gotmantdig ps)
      else case_S_FRAC (ps\<lparr>state := S_FRAC\<rparr>) c)"

definition case_S_MAYBEHEX :: "parser \<Rightarrow> char \<Rightarrow> (parser \<times> bool) option" where
  "case_S_MAYBEHEX ps c =
     (if c = CHR ''X'' \<or> c = CHR ''x'' then Some (ps\<lparr>state := S_DIGITS, ishex := True\<rparr>, False)
      else \<comment> \<open>we saw a 0, but no x\<close>
        case_S_DIGITS (ps\<lparr>state := S_DIGITS, gotmantdig := True\<rparr>) c)"

definition case_S_INF :: "parser \<Rightarrow> char \<Rightarrow> (parser \<times> bool) option" where
  "case_S_INF ps c =
     (let pos = infnanpos ps
      in if 6 < pos then None
         else if c \<noteq> ''nfinity'' ! nat pos \<and> c \<noteq> ''NFINITY'' ! nat pos then None
         else Some (ps\<lparr>infnanpos := pos + 1\<rparr>, pos = 1 \<or> pos = 6))"

definition case_S_NAN :: "parser \<Rightarrow> char \<Rightarrow> (parser \<times> bool) option" where
  "case_S_NAN ps c =
     (let pos = infnanpos ps
      in if pos = - 1 then None
         else if pos = 0 then
           (if c \<noteq> CHR ''A'' \<and> c \<noteq> CHR ''a'' then None
            else Some (ps\<lparr>infnanpos := pos + 1\<rparr>, False))
         else if pos = 1 then
           (if c \<noteq> CHR ''N'' \<and> c \<noteq> CHR ''n'' then None
            else Some (ps\<lparr>infnanpos := pos + 1\<rparr>, True))
         else if pos = 2 then
           (if c \<noteq> CHR ''('' then None else Some (ps\<lparr>infnanpos := pos + 1\<rparr>, False))
         else if c = CHR '')'' then Some (ps\<lparr>infnanpos := - 2 + 1\<rparr>, True)
         else if \<not> isalnum c \<and> c \<noteq> CHR ''_'' then None
         else Some (ps\<lparr>infnanpos := pos + 1\<rparr>, False))"

definition case_S_GOTSIGN :: "parser \<Rightarrow> char \<Rightarrow> (parser \<times> bool) option" where
  "case_S_GOTSIGN ps c =
     (if c = CHR ''0'' then Some (ps\<lparr>state := S_MAYBEHEX\<rparr>, True)
      else if c = CHR ''I'' \<or> c = CHR ''i'' then Some (ps\<lparr>state := S_INF\<rparr>, False)
      else if c = CHR ''N'' \<or> c = CHR ''n'' then Some (ps\<lparr>state := S_NAN\<rparr>, False)
      else case_S_DIGITS (ps\<lparr>state := S_DIGITS\<rparr>) c)"

definition case_S_START :: "parser \<Rightarrow> char \<Rightarrow> (parser \<times> bool) option" where
  "case_S_START ps c =
     (if is_sign c then Some (ps\<lparr>state := S_GOTSIGN\<rparr>, False)
      else case_S_GOTSIGN (ps\<lparr>state := S_GOTSIGN\<rparr>) c)"

definition parsefloat_switch :: "parser \<Rightarrow> char \<Rightarrow> (parser \<times> bool) option" where
  "parsefloat_switch ps c =
     (case state ps of
        S_START \<Rightarrow> case_S_START ps c
      | S_GOTSIGN \<Rightarrow> case_S_GOTSIGN ps c
      | S_INF \<Rightarrow> case_S_INF ps c
      | S_NAN \<Rightarrow> case_S_NAN ps c
      | S_MAYBEHEX \<Rightarrow> case_S_MAYBEHEX ps c
      | S_DIGITS \<Rightarrow> case_S_DIGITS ps c
      | S_FRAC \<Rightarrow> case_S_FRAC ps c
      | S_EXP \<Rightarrow> case_S_EXP ps c
      | S_EXPDIGITS \<Rightarrow> case_S_EXPDIGITS ps c)"

text \<open>
  The scanner's loop: \<open>n\<close> characters are taken so far and the first \<open>committed\<close> of them
  are a complete constant. It ends at \<open>parsedone\<close> or with the input.
\<close>

fun parsefloat_loop :: "parser \<Rightarrow> nat \<Rightarrow> nat \<Rightarrow> string \<Rightarrow> nat" where
  "parsefloat_loop ps n committed [] = committed"
| "parsefloat_loop ps n committed (c # cs) =
     (case parsefloat_switch ps c of
        None \<Rightarrow> committed
      | Some (ps', commit) \<Rightarrow>
          parsefloat_loop ps' (Suc n) (if commit then Suc n else committed) cs)"

text \<open>
  \<open>parsefloat\<close>: the length of the constant at the head of the input, 0 when there is
  none. The scanner's buffer holds 512 characters.
\<close>

definition parsefloat :: "string \<Rightarrow> nat" where
  "parsefloat s =
     parsefloat_loop \<lparr>state = S_START, infnanpos = 0, gotmantdig = False, ishex = False\<rparr> 0 0
       (take 512 s)"

text \<open>
  \<open>strtof\<close> on what \<open>parsefloat\<close> took: the value of the constant, rounded to the nearest
  \<open>float\<close>. A decimal constant is digits, an optional point and an optional exponent of
  ten; a hexadecimal one has an exponent of two.
\<close>

definition strtof_decimal :: "bool \<Rightarrow> string \<Rightarrow> int \<Rightarrow> f32" where
  "strtof_decimal neg digits k =
     (if 0 \<le> k then float_of_ratio neg (decimal 0 digits * 10 ^ nat k) 1
      else float_of_ratio neg (decimal 0 digits) (10 ^ nat (- k)))"

definition hex_digit :: "char \<Rightarrow> int" where
  "hex_digit c =
     (if isdigit c then of_char c - 48
      else if 97 \<le> (of_char c :: nat) then of_char c - 87
      else of_char c - 55)"

fun hexadecimal :: "int \<Rightarrow> string \<Rightarrow> int" where
  "hexadecimal acc [] = acc"
| "hexadecimal acc (c # cs) = hexadecimal (16 * acc + hex_digit c) cs"

definition strtof_hexadecimal :: "bool \<Rightarrow> string \<Rightarrow> int \<Rightarrow> f32" where
  "strtof_hexadecimal neg digits k =
     (if 0 \<le> k then float_of_ratio neg (hexadecimal 0 digits * 2 ^ nat k) 1
      else float_of_ratio neg (hexadecimal 0 digits) (2 ^ nat (- k)))"

text \<open>
  The mantissa and exponent of a constant without its sign and \<open>0x\<close>: the digits before
  and after the point, and the exponent after the letter \<open>e1\<close> or \<open>e2\<close>, when it has digits.
\<close>

definition mantissa_exponent ::
    "(char \<Rightarrow> bool) \<Rightarrow> char \<Rightarrow> char \<Rightarrow> string \<Rightarrow> string \<times> string \<times> int" where
  "mantissa_exponent is_digit e1 e2 b =
     (let ip = takeWhile is_digit b;
          b2 = dropWhile is_digit b;
          point = (case b2 of c # _ \<Rightarrow> c = CHR ''.'' | [] \<Rightarrow> False);
          fp = (if point then takeWhile is_digit (tl b2) else []);
          b3 = (if point then dropWhile is_digit (tl b2) else b2);
          has_e = (case b3 of c # _ \<Rightarrow> c = e1 \<or> c = e2 | [] \<Rightarrow> False);
          b4 = (if has_e then tl b3 else []);
          esigned = (case b4 of c # _ \<Rightarrow> is_sign c | [] \<Rightarrow> False);
          eneg = (case b4 of c # _ \<Rightarrow> c = CHR ''-'' | [] \<Rightarrow> False);
          ed = takeWhile isdigit (if esigned then tl b4 else b4)
      in (ip, fp, if eneg then - decimal 0 ed else decimal 0 ed))"

definition strtof :: "string \<Rightarrow> f32" where
  "strtof token =
     (let neg = (case token of c # _ \<Rightarrow> c = CHR ''-'' | [] \<Rightarrow> False);
          body = (case token of c # r \<Rightarrow> if is_sign c then r else token | [] \<Rightarrow> token)
      in case body of
           [] \<Rightarrow> Finite 0 0
         | c # r \<Rightarrow>
             if c = CHR ''i'' \<or> c = CHR ''I'' then Infinity neg
             else if c = CHR ''n'' \<or> c = CHR ''N'' then NaN
             else if c = CHR ''0'' \<and> (case r of x # _ \<Rightarrow> x = CHR ''x'' \<or> x = CHR ''X'' | [] \<Rightarrow> False)
             then (case mantissa_exponent isxdigit CHR ''p'' CHR ''P'' (tl r) of
                     (ip, fp, ex) \<Rightarrow> strtof_hexadecimal neg (ip @ fp) (ex - 4 * int (length fp)))
             else (case mantissa_exponent isdigit CHR ''e'' CHR ''E'' body of
                     (ip, fp, ex) \<Rightarrow> strtof_decimal neg (ip @ fp) (ex - int (length fp))))"

text \<open>
  The \<open>%g\<close> directive: white space is skipped, \<open>parsefloat\<close> takes the constant and
  \<open>strtof\<close> converts it. The result is the value and the rest of the input, or \<open>None\<close>
  where no constant stands at the head of the input.
\<close>

definition scan_g :: "string \<Rightarrow> (f32 \<times> string) option" where
  "scan_g s =
     (let t = dropWhile isspace s;
          width = parsefloat t
      in if width = 0 then None else Some (strtof (take width t), drop width t))"

text \<open>
  \<open>sscanf(s, "%g,%g", &left, &right)\<close>: a value, a comma right after it, a value.
  The result is \<open>Some (left, right)\<close> exactly when the call returns 2.
\<close>

definition sscanf_g_g :: "string \<Rightarrow> (f32 \<times> f32) option" where
  "sscanf_g_g s =
     (case scan_g s of
        None \<Rightarrow> None
      | Some (left, r1) \<Rightarrow>
          (case r1 of
             [] \<Rightarrow> None
           | c # r2 \<Rightarrow>
               if c = CHR '','' then
                 (case scan_g r2 of None \<Rightarrow> None | Some (right, r3) \<Rightarrow> Some (left, right))
               else None))"

definition logSpeakerImpedance :: "world \<Rightarrow> world option" where
  "logSpeakerImpedance w =
     (case ReadFileToString kImpedancePath w of
        (None, w1) \<Rightarrow> Some (emit (ALOGE ''Unable to read impedance path %s'' [kImpedancePath]) w1)
      | (Some file_contents, w1) \<Rightarrow>
          (case sscanf_g_g (c_str file_contents) of
             None \<Rightarrow>
               Some (emit (ALOGE ''Unable to parse speaker impedance %s'' [c_str file_contents]) w1)
           | Some (left, right) \<Rightarrow>
               do {
                 w2 \<leftarrow> call_pixelstats
                        (SpeakerImpedance 0 (f32_to_int32 (f32_mul left (f32_of_int 1000)))) w1;
                 call_pixelstats
                   (SpeakerImpedance 1 (f32_to_int32 (f32_mul right (f32_of_int 1000)))) w2
               }))"

subsection \<open>One cycle\<close>

definition tryGetService :: "world \<Rightarrow> bool \<times> world" where
  "tryGetService w =
     (let up = service_up w (lookups w)
      in (up, emit (GetService up) (w\<lparr>lookups := lookups w + 1\<rparr>)))"

definition logAll :: "world \<Rightarrow> world option" where
  "logAll w =
     (case tryGetService w of
        (got, w0) \<Rightarrow>
          let w1 = w0\<lparr>pixelstats := got\<rparr>
          in if \<not> pixelstats w1
             then Some (emit (ALOGE ''Unable to connect to PixelStats service'' []) w1)
             else do {
               w2 \<leftarrow> logBatteryChargeCycles w1;
               w3 \<leftarrow> logCodecFailed w2;
               w4 \<leftarrow> logSlowIO w3;
               w5 \<leftarrow> logSpeakerImpedance w4;
               Some (emit ReleaseService (w5\<lparr>pixelstats := False\<rparr>))
             })"

subsection \<open>The collection loop\<close>

text \<open>
  What the timer file descriptor does is an input: whether \<open>timerfd_create\<close> and
  \<open>timerfd_settime\<close> succeed, and the outcomes of the successive \<open>read\<close> calls on it
  (\<open>Expired\<close>: the read returned, \<open>Interrupted\<close>: it failed with \<open>EINTR\<close>, \<open>Failed\<close>: it
  failed with another error).
\<close>

datatype timer_read = Expired | Interrupted | Failed

record timerfd =
  create_ok :: bool
  settime_ok :: bool
  reads :: "timer_read list"

text \<open>
  \<open>collect\<close> returns only on an error; otherwise it waits in \<open>read\<close> for ever. The model
  follows it along the given \<open>reads\<close>: \<open>Returned\<close> when \<open>collect\<close> returned, \<open>Blocked\<close> when
  it waits in a \<open>read\<close> whose outcome the list no longer gives.
\<close>

datatype outcome = Returned | Blocked

text \<open>
  \<open>while (1)\<close> with its inner \<open>do ... while (readval < 0 && errno == EINTR)\<close>: one
  equation for each outcome of a \<open>read\<close>.
\<close>

fun collect_loop :: "timer_read list \<Rightarrow> world \<Rightarrow> (outcome \<times> world) option" where
  "collect_loop [] w = Some (Blocked, w)"
| "collect_loop (Interrupted # rs) w = collect_loop rs w"
| "collect_loop (Failed # rs) w = Some (Returned, emit (ALOGE ''Timerfd error - %s\<newline>'' []) w)"
| "collect_loop (Expired # rs) w =
     (case logAll w of None \<Rightarrow> None | Some w' \<Rightarrow> collect_loop rs w')"

definition kSecondsPerDay :: int where
  "kSecondsPerDay = 60 * 60 * 24"

definition collect :: "timerfd \<Rightarrow> world \<Rightarrow> (outcome \<times> world) option" where
  "collect t w =
     (if \<not> create_ok t then Some (Returned, emit (ALOGE ''Unable to create timerfd - %s'' []) w)
      else
        \<comment> \<open>Sleep for 30 seconds on launch, then collect the first set of stats.\<close>
        (case logAll (emit (Sleep 30) w) of
           None \<Rightarrow> None
         | Some w1 \<Rightarrow>
             if \<not> settime_ok t
             then Some (Returned, emit (ALOGE ''Unable to set 24hr timer - %s'' []) w1)
             else collect_loop (reads t) (emit (TimerArmed kSecondsPerDay kSecondsPerDay) w1)))"

subsection \<open>Reading a trace\<close>

text \<open>The events a call added: those of the world after it that the world before lacks.\<close>

definition events_since :: "world \<Rightarrow> world \<Rightarrow> event list" where
  "events_since w w' = drop (length (trace w)) (trace w')"

fun the_report :: "event \<Rightarrow> report option" where
  "the_report (Report r) = Some r"
| "the_report _ = None"

definition reports_of :: "event list \<Rightarrow> report list" where
  "reports_of es = List.map_filter the_report es"

fun is_log :: "event \<Rightarrow> bool" where
  "is_log (ALOGE fmt args) = True"
| "is_log _ = False"

text \<open>A trace without its log lines: the file accesses and service calls, in order.\<close>

definition effects :: "event list \<Rightarrow> event list" where
  "effects es = filter (\<lambda>e. \<not> is_log e) es"

text \<open>
  The source an event belongs to, by its path: a file access belongs to its file, a
  report to the file the collector reads for that kind of report.
\<close>

fun slowio_path :: "IoOperation \<Rightarrow> string" where
  "slowio_path READ = kSlowioReadCntPath"
| "slowio_path WRITE = kSlowioWriteCntPath"
| "slowio_path UNMAP = kSlowioUnmapCntPath"
| "slowio_path SYNC = kSlowioSyncCntPath"

fun event_source :: "event \<Rightarrow> string option" where
  "event_source (FileRead p ok) = Some p"
| "event_source (FileWrite p c ok) = Some p"
| "event_source (Report (ChargeCycles s)) = Some kCycleCountBinsPath"
| "event_source (Report (HardwareFailed t i e)) = Some kCodecPath"
| "event_source (Report (SlowIo operation n)) = Some (slowio_path operation)"
| "event_source (Report (SpeakerImpedance ch v)) = Some kImpedancePath"
| "event_source _ = None"

fun is_read :: "event \<Rightarrow> bool" where
  "is_read (FileRead p ok) = True"
| "is_read _ = False"

fun the_write :: "event \<Rightarrow> (string \<times> string) option" where
  "the_write (FileWrite p c ok) = Some (p, c)"
| "the_write _ = None"

definition writes_of :: "event list \<Rightarrow> (string \<times> string) list" where
  "writes_of es = List.map_filter the_write es"

definition sources :: "event list \<Rightarrow> string list" where
  "sources es = List.map_filter event_source es"

definition about :: "string \<Rightarrow> event list \<Rightarrow> event list" where
  "about p es = filter (\<lambda>e. event_source e = Some p) es"


subsection \<open>What one call adds to the trace\<close>

text \<open>
  The events each method appends, as a function of what it reads: the content of its file
  (\<open>None\<close>: unreadable) and, for a counter, whether the file can be written. The lemmas
  below prove that the methods do exactly this.
\<close>

definition charge_cycle_events :: "string option \<Rightarrow> event list" where
  "charge_cycle_events content =
     (case content of
        None \<Rightarrow> [FileRead kCycleCountBinsPath False,
                 ALOGE ''Unable to read battery charge cycles - %s'' []]
      | Some c \<Rightarrow> [FileRead kCycleCountBinsPath True,
                   Report (ChargeCycles (Trim (replace CHR '' '' CHR '','' c)))])"

definition codec_events :: "string option \<Rightarrow> event list" where
  "codec_events content =
     (case content of
        None \<Rightarrow> [FileRead kCodecPath False, ALOGE ''Unable to read codec state - %s'' []]
      | Some c \<Rightarrow> FileRead kCodecPath True #
                  (if c = ''0'' then [] else [Report (HardwareFailed CODEC 0 COMPLETE)]))"

definition slowio_events :: "string \<Rightarrow> IoOperation \<Rightarrow> string option \<Rightarrow> bool \<Rightarrow> event list" where
  "slowio_events path operation content can_write =
     (case content of
        None \<Rightarrow> [FileRead path False, ALOGE ''Unable to read %s - %s'' [path]]
      | Some c \<Rightarrow>
          FileRead path True #
          (case sscanf_d (c_str c) of
             None \<Rightarrow> [ALOGE ''Unable to parse %s from file %s to int.'' [c_str c, path]]
           | Some n \<Rightarrow> if 0 < sint n then [Report (SlowIo operation n)] else []) @
          FileWrite path ''0'' can_write #
          (if can_write then [] else [ALOGE ''Unable to clear SlowIO entry - %s'' []]))"

definition impedance_events :: "string option \<Rightarrow> event list" where
  "impedance_events content =
     (case content of
        None \<Rightarrow> [FileRead kImpedancePath False,
                 ALOGE ''Unable to read impedance path %s'' [kImpedancePath]]
      | Some c \<Rightarrow>
          FileRead kImpedancePath True #
          (case sscanf_g_g (c_str c) of
             None \<Rightarrow> [ALOGE ''Unable to parse speaker impedance %s'' [c_str c]]
           | Some (left, right) \<Rightarrow>
               [Report (SpeakerImpedance 0 (f32_to_int32 (f32_mul left (f32_of_int 1000)))),
                Report (SpeakerImpedance 1 (f32_to_int32 (f32_mul right (f32_of_int 1000))))]))"

text \<open>
  The files after one call on a counter: the counter holds \<open>"0"\<close> when it was read and
  can be written. \<open>counters_cleared\<close>: the files after the four calls of a cycle.
\<close>

definition cleared :: "string \<Rightarrow> world \<Rightarrow> string \<Rightarrow> string option" where
  "cleared path w =
     (if files w path \<noteq> None \<and> writable w path then (files w)(path \<mapsto> ''0'') else files w)"

definition counters_cleared :: "world \<Rightarrow> string \<Rightarrow> string option" where
  "counters_cleared w p =
     (if p \<in> {kSlowioReadCntPath, kSlowioWriteCntPath, kSlowioUnmapCntPath, kSlowioSyncCntPath}
      then cleared p w p else files w p)"

text \<open>The events of the seven sources in one cycle, in the order \<open>logAll\<close> calls them.\<close>

definition source_events :: "world \<Rightarrow> event list" where
  "source_events w =
     charge_cycle_events (files w kCycleCountBinsPath) @
     codec_events (files w kCodecPath) @
     slowio_events kSlowioReadCntPath READ
       (files w kSlowioReadCntPath) (writable w kSlowioReadCntPath) @
     slowio_events kSlowioWriteCntPath WRITE
       (files w kSlowioWriteCntPath) (writable w kSlowioWriteCntPath) @
     slowio_events kSlowioUnmapCntPath UNMAP
       (files w kSlowioUnmapCntPath) (writable w kSlowioUnmapCntPath) @
     slowio_events kSlowioSyncCntPath SYNC
       (files w kSlowioSyncCntPath) (writable w kSlowioSyncCntPath) @
     impedance_events (files w kImpedancePath)"

subsection \<open>Example worlds\<close>

text \<open>
  \<open>sysfs fs\<close>: the files of the association list \<open>fs\<close>, all writable, the service
  running, no handle held and nothing done yet. \<open>attached w\<close>: \<open>w\<close> inside a cycle, with
  the handle held.
\<close>

definition sysfs :: "(string \<times> string) list \<Rightarrow> world" where
  "sysfs fs =
     \<lparr>files = map_of fs, writable = (\<lambda>p. True), service_up = (\<lambda>n. True), lookups = 0,
      pixelstats = False, trace = []\<rparr>"

definition attached :: "world \<Rightarrow> world" where
  "attached w = w\<lparr>pixelstats := True\<rparr>"


section \<open>Properties\<close>

subsection \<open>The paths are distinct\<close>

lemma path_neq [simp]:
  "kCycleCountBinsPath \<noteq> kCodecPath" "kCycleCountBinsPath \<noteq> kSlowioReadCntPath"
  "kCycleCountBinsPath \<noteq> kSlowioWriteCntPath" "kCycleCountBinsPath \<noteq> kSlowioUnmapCntPath"
  "kCycleCountBinsPath \<noteq> kSlowioSyncCntPath" "kCycleCountBinsPath \<noteq> kImpedancePath"
  "kCodecPath \<noteq> kSlowioReadCntPath" "kCodecPath \<noteq> kSlowioWriteCntPath"
  "kCodecPath \<noteq> kSlowioUnmapCntPath" "kCodecPath \<noteq> kSlowioSyncCntPath"
  "kCodecPath \<noteq> kImpedancePath"
  "kSlowioReadCntPath \<noteq> kSlowioWriteCntPath" "kSlowioReadCntPath \<noteq> kSlowioUnmapCntPath"
  "kSlowioReadCntPath \<noteq> kSlowioSyncCntPath" "kSlowioReadCntPath \<noteq> kImpedancePath"
  "kSlowioWriteCntPath \<noteq> kSlowioUnmapCntPath" "kSlowioWriteCntPath \<noteq> kSlowioSyncCntPath"
  "kSlowioWriteCntPath \<noteq> kImpedancePath"
  "kSlowioUnmapCntPath \<noteq> kSlowioSyncCntPath" "kSlowioUnmapCntPath \<noteq> kImpedancePath"
  "kSlowioSyncCntPath \<noteq> kImpedancePath"
  by (simp_all add: kCycleCountBinsPath_def kCodecPath_def kSlowioReadCntPath_def
      kSlowioWriteCntPath_def kSlowioUnmapCntPath_def kSlowioSyncCntPath_def kImpedancePath_def)

lemmas path_neq_sym [simp] = path_neq [symmetric]

subsection \<open>Each method, run with the handle held\<close>

lemma events_since_append [simp]:
  "trace w' = trace w @ es \<Longrightarrow> events_since w w' = es"
  by (simp add: events_since_def)

lemma logBatteryChargeCycles_run:
  "pixelstats w \<Longrightarrow>
   logBatteryChargeCycles w =
     Some (w\<lparr>trace := trace w @ charge_cycle_events (files w kCycleCountBinsPath)\<rparr>)"
  by (simp add: logBatteryChargeCycles_def ReadFileToString_def call_pixelstats_def emit_def
      charge_cycle_events_def split: option.split)

lemma logCodecFailed_run:
  "pixelstats w \<Longrightarrow>
   logCodecFailed w = Some (w\<lparr>trace := trace w @ codec_events (files w kCodecPath)\<rparr>)"
  by (simp add: logCodecFailed_def ReadFileToString_def call_pixelstats_def emit_def
      codec_events_def split: option.split)

lemma reportSlowIoFromFile_run:
  "pixelstats w \<Longrightarrow>
   reportSlowIoFromFile path operation w =
     Some (w\<lparr>files := cleared path w,
             trace := trace w @ slowio_events path operation (files w path) (writable w path)\<rparr>)"
  by (simp add: reportSlowIoFromFile_def ReadFileToString_def WriteStringToFile_def
      call_pixelstats_def emit_def slowio_events_def cleared_def split: option.split)

lemma logSpeakerImpedance_run:
  "pixelstats w \<Longrightarrow>
   logSpeakerImpedance w =
     Some (w\<lparr>trace := trace w @ impedance_events (files w kImpedancePath)\<rparr>)"
  by (simp add: logSpeakerImpedance_def ReadFileToString_def call_pixelstats_def emit_def
      impedance_events_def split: option.split prod.split)

subsection \<open>Projections of a trace\<close>

lemma reports_of_simps [simp]:
  "reports_of [] = []"
  "reports_of (e # es) = (case the_report e of None \<Rightarrow> reports_of es | Some r \<Rightarrow> r # reports_of es)"
  "reports_of (xs @ ys) = reports_of xs @ reports_of ys"
  by (simp_all add: reports_of_def List.map_filter_def split: option.split)

lemma writes_of_simps [simp]:
  "writes_of [] = []"
  "writes_of (e # es) = (case the_write e of None \<Rightarrow> writes_of es | Some r \<Rightarrow> r # writes_of es)"
  "writes_of (xs @ ys) = writes_of xs @ writes_of ys"
  by (simp_all add: writes_of_def List.map_filter_def split: option.split)

lemma effects_simps [simp]:
  "effects [] = []"
  "effects (e # es) = (if is_log e then effects es else e # effects es)"
  "effects (xs @ ys) = effects xs @ effects ys"
  by (simp_all add: effects_def)

subsection \<open>Slow I/O counters\<close>

lemma c_str_examples:
  "c_str ''0'' = ''0''" "c_str ''5'' = ''5''" "c_str ''abc'' = ''abc''" "c_str ''-3'' = ''-3''"
  by (simp_all add: c_str_def)

lemma sscanf_d_examples:
  "sscanf_d ''0'' = Some 0"
  "sscanf_d ''5'' = Some 5"
  "sscanf_d ''abc'' = None"
  "sscanf_d ''-3'' = Some (- 3)"
  by (simp_all add: sscanf_d_def isspace_def isdigit_def clamp_intmax_def)

text \<open>
  C1 (as amended). For each slow-I/O counter, after a successful file read the reset
  write of \<open>"0"\<close> to the source file is always attempted, whether or not the content
  parsed: the file accesses and service calls of the call are the read, then one
  slow-I/O report with the parsed count and the source's operation kind exactly when the
  content parses to a positive count, then the write. So \<open>"0"\<close> gives no report and the
  write, \<open>"5"\<close> gives one report with count 5 and then the write, and \<open>"abc"\<close> (which does
  not parse) gives no report and still the write. The four counters are handled by four
  such calls in turn, each with its own path and operation kind.
\<close>

theorem slow_io_read_ok:
  assumes "pixelstats w" and "files w path = Some c"
  shows "(\<exists>w'. reportSlowIoFromFile path operation w = Some w' \<and>
            effects (events_since w w') =
              FileRead path True #
              (case sscanf_d (c_str c) of
                 None \<Rightarrow> []
               | Some n \<Rightarrow> if 0 < sint n then [Report (SlowIo operation n)] else []) @
              [FileWrite path ''0'' (writable w path)]) \<and>
         sscanf_d (c_str ''0'') = Some 0 \<and>
         sscanf_d (c_str ''5'') = Some 5 \<and>
         sscanf_d (c_str ''abc'') = None \<and>
         (\<exists>w1 w2 w3 w4.
            reportSlowIoFromFile kSlowioReadCntPath READ w = Some w1 \<and>
            reportSlowIoFromFile kSlowioWriteCntPath WRITE w1 = Some w2 \<and>
            reportSlowIoFromFile kSlowioUnmapCntPath UNMAP w2 = Some w3 \<and>
            reportSlowIoFromFile kSlowioSyncCntPath SYNC w3 = Some w4 \<and>
            logSlowIO w = Some w4)"
proof -
  have one: "\<exists>w'. reportSlowIoFromFile path operation w = Some w' \<and>
      effects (events_since w w') =
        FileRead path True #
        (case sscanf_d (c_str c) of
           None \<Rightarrow> []
         | Some n \<Rightarrow> if 0 < sint n then [Report (SlowIo operation n)] else []) @
        [FileWrite path ''0'' (writable w path)]"
    using assms by (simp add: reportSlowIoFromFile_run slowio_events_def split: option.split)
  have examples: "sscanf_d (c_str ''0'') = Some 0" "sscanf_d (c_str ''5'') = Some 5"
    "sscanf_d (c_str ''abc'') = None"
    by (simp_all add: sscanf_d_examples c_str_examples)
  have four: "\<exists>w1 w2 w3 w4.
      reportSlowIoFromFile kSlowioReadCntPath READ w = Some w1 \<and>
      reportSlowIoFromFile kSlowioWriteCntPath WRITE w1 = Some w2 \<and>
      reportSlowIoFromFile kSlowioUnmapCntPath UNMAP w2 = Some w3 \<and>
      reportSlowIoFromFile kSlowioSyncCntPath SYNC w3 = Some w4 \<and>
      logSlowIO w = Some w4"
    using assms(1) by (simp add: logSlowIO_def reportSlowIoFromFile_run)
  from one examples four show ?thesis by blast
qed

theorem slow_io_read_ok_witness:
  "pixelstats (attached (sysfs [(kSlowioUnmapCntPath, ''abc'')])) \<and>
   files (attached (sysfs [(kSlowioUnmapCntPath, ''abc'')])) kSlowioUnmapCntPath = Some ''abc'' \<and>
   (\<exists>w'. reportSlowIoFromFile kSlowioUnmapCntPath UNMAP
            (attached (sysfs [(kSlowioUnmapCntPath, ''abc'')])) = Some w' \<and>
         effects (events_since (attached (sysfs [(kSlowioUnmapCntPath, ''abc'')])) w') =
           [FileRead kSlowioUnmapCntPath True, FileWrite kSlowioUnmapCntPath ''0'' True])"
  using slow_io_read_ok [of "attached (sysfs [(kSlowioUnmapCntPath, ''abc'')])"
      kSlowioUnmapCntPath "''abc''" UNMAP]
  by (simp add: attached_def sysfs_def sscanf_d_examples c_str_examples)

text \<open>
  C1 as stated says that a content that does not parse leaves the file alone. It does
  not: on \<open>"abc"\<close> the call logs the parse failure and then writes \<open>"0"\<close>.
\<close>

theorem slow_io_abc_is_cleared:
  "map_option trace
     (reportSlowIoFromFile kSlowioReadCntPath READ
        (attached (sysfs [(kSlowioReadCntPath, ''abc'')]))) =
   Some [FileRead kSlowioReadCntPath True,
         ALOGE ''Unable to parse %s from file %s to int.'' [''abc'', kSlowioReadCntPath],
         FileWrite kSlowioReadCntPath ''0'' True]"
  by (simp add: reportSlowIoFromFile_run attached_def sysfs_def slowio_events_def
      sscanf_d_examples c_str_examples)

text \<open>
  C10. For each slow-I/O counter, a parsed value that is zero or negative gives no
  report call, and the write of \<open>"0"\<close> to the source file is still made; only a
  strictly positive parsed value is reported.
\<close>

theorem slow_io_nonpositive:
  assumes "pixelstats w" and "files w path = Some c" and "sscanf_d (c_str c) = Some n"
  shows "\<exists>w'. reportSlowIoFromFile path operation w = Some w' \<and>
           reports_of (events_since w w') = (if 0 < sint n then [SlowIo operation n] else []) \<and>
           writes_of (events_since w w') = [(path, ''0'')] \<and>
           files w' path = Some (if writable w path then ''0'' else c)"
  using assms
  by (simp add: reportSlowIoFromFile_run slowio_events_def cleared_def)

theorem slow_io_nonpositive_witness:
  "pixelstats (attached (sysfs [(kSlowioSyncCntPath, ''-3'')])) \<and>
   files (attached (sysfs [(kSlowioSyncCntPath, ''-3'')])) kSlowioSyncCntPath = Some ''-3'' \<and>
   sscanf_d (c_str ''-3'') = Some (- 3) \<and>
   (\<exists>w'. reportSlowIoFromFile kSlowioSyncCntPath SYNC
            (attached (sysfs [(kSlowioSyncCntPath, ''-3'')])) = Some w' \<and>
         reports_of (events_since (attached (sysfs [(kSlowioSyncCntPath, ''-3'')])) w') = [] \<and>
         writes_of (events_since (attached (sysfs [(kSlowioSyncCntPath, ''-3'')])) w') =
           [(kSlowioSyncCntPath, ''0'')] \<and>
         files w' kSlowioSyncCntPath = Some ''0'')"
  using slow_io_nonpositive [of "attached (sysfs [(kSlowioSyncCntPath, ''-3'')])"
      kSlowioSyncCntPath "''-3''" "- 3" SYNC]
  by (simp add: attached_def sysfs_def sscanf_d_examples c_str_examples)

subsection \<open>Codec state\<close>

text \<open>
  C4. For the codec state, after a successful file read: a content that is exactly
  \<open>"0"\<close> gives no report call; any other content gives exactly one hardware-failure
  report, with the component \<open>CODEC\<close>, the index 0 and the error code \<open>COMPLETE\<close>.
\<close>

theorem codec_state_read_ok:
  assumes "pixelstats w" and "files w kCodecPath = Some c"
  shows "\<exists>w'. logCodecFailed w = Some w' \<and>
           events_since w w' =
             FileRead kCodecPath True #
             (if c = ''0'' then [] else [Report (HardwareFailed CODEC 0 COMPLETE)])"
  using assms by (simp add: logCodecFailed_run codec_events_def)

theorem codec_state_read_ok_witness:
  "pixelstats (attached (sysfs [(kCodecPath, ''error'')])) \<and>
   files (attached (sysfs [(kCodecPath, ''error'')])) kCodecPath = Some ''error'' \<and>
   (\<exists>w'. logCodecFailed (attached (sysfs [(kCodecPath, ''error'')])) = Some w' \<and>
         events_since (attached (sysfs [(kCodecPath, ''error'')])) w' =
           [FileRead kCodecPath True, Report (HardwareFailed CODEC 0 COMPLETE)])"
  using codec_state_read_ok [of "attached (sysfs [(kCodecPath, ''error'')])" "''error''"]
  by (simp add: attached_def sysfs_def)

text \<open>
  C9. The codec check compares the raw content with \<open>"0"\<close> and trims nothing: a \<open>0\<close>
  with anything before or after it (a trailing newline, say) counts as a failure and
  gives one hardware-failure report.
\<close>

theorem codec_state_not_trimmed:
  assumes "pixelstats w" and "files w kCodecPath = Some (pre @ ''0'' @ suf)"
    and "pre \<noteq> [] \<or> suf \<noteq> []"
  shows "\<exists>w'. logCodecFailed w = Some w' \<and>
           reports_of (events_since w w') = [HardwareFailed CODEC 0 COMPLETE]"
proof -
  have "length (pre @ ''0'' @ suf) \<noteq> length ''0''"
    using assms(3) by auto
  then have "pre @ ''0'' @ suf \<noteq> ''0''"
    by metis
  then show ?thesis
    using assms(1,2) by (simp add: logCodecFailed_run codec_events_def)
qed

theorem codec_state_not_trimmed_witness:
  "pixelstats (attached (sysfs [(kCodecPath, ''0\<newline>'')])) \<and>
   files (attached (sysfs [(kCodecPath, ''0\<newline>'')])) kCodecPath = Some ([] @ ''0'' @ ''\<newline>'') \<and>
   ''\<newline>'' \<noteq> [] \<and>
   (\<exists>w'. logCodecFailed (attached (sysfs [(kCodecPath, ''0\<newline>'')])) = Some w' \<and>
         reports_of (events_since (attached (sysfs [(kCodecPath, ''0\<newline>'')])) w') =
           [HardwareFailed CODEC 0 COMPLETE])"
  using codec_state_not_trimmed [of "attached (sysfs [(kCodecPath, ''0\<newline>'')])" "[]" "''\<newline>''"]
  by (simp add: attached_def sysfs_def)

subsection \<open>Battery charge cycles\<close>

lemma Trim_split:
  "\<exists>pre suf. s = pre @ Trim s @ suf \<and> (\<forall>c \<in> set (pre @ suf). isspace c)"
proof -
  let ?t = "dropWhile isspace s"
  have "rev ?t = takeWhile isspace (rev ?t) @ dropWhile isspace (rev ?t)"
    by simp
  then have "?t = Trim s @ rev (takeWhile isspace (rev ?t))"
    unfolding Trim_def by (metis rev_append rev_rev_ident)
  then have "s = takeWhile isspace s @ Trim s @ rev (takeWhile isspace (rev ?t))"
    by (metis takeWhile_dropWhile_id)
  moreover have "\<forall>c \<in> set (takeWhile isspace s @ rev (takeWhile isspace (rev ?t))). isspace c"
    by (auto dest: set_takeWhileD)
  ultimately show ?thesis by blast
qed

lemma Trim_ends:
  assumes "Trim s \<noteq> []"
  shows "\<not> isspace (hd (Trim s))" and "\<not> isspace (last (Trim s))"
proof -
  let ?t = "dropWhile isspace s"
  let ?u = "dropWhile isspace (rev ?t)"
  have u: "?u \<noteq> []" using assms by (simp add: Trim_def)
  then have t: "?t \<noteq> []" by (metis dropWhile.simps(1) rev.simps(1))
  show "\<not> isspace (last (Trim s))"
    using hd_dropWhile [OF u] by (simp add: Trim_def last_rev)
  obtain pre where pre: "rev ?t = pre @ ?u"
    by (metis takeWhile_dropWhile_id)
  then have "?t = rev ?u @ rev pre"
    by (metis rev_append rev_rev_ident)
  then have "hd ?t = hd (rev ?u)"
    using u by (metis hd_append2 rev_is_Nil_conv)
  then show "\<not> isspace (hd (Trim s))"
    using hd_dropWhile [OF t] by (simp add: Trim_def)
qed

lemma Trim_replace_example:
  "Trim (replace CHR '' '' CHR '','' ''1 2 3\<newline>'') = ''1,2,3''"
  "Trim (replace CHR '' '' CHR '','' ''1 2 3 '') = ''1,2,3,''"
  by (simp_all add: Trim_def replace_def isspace_def)

text \<open>
  C2 (as amended). For every successfully read charge-cycle histogram, the string
  forwarded to the charge-cycle report is the content with every space character turned
  into a comma (one comma for each space, no other character changed) and then the white
  space at both ends removed (tabs and line ends: the spaces are commas by then, and a
  comma is not trimmed). In particular the content \<open>"1 2 3"\<close> followed by a newline is
  reported as \<open>"1,2,3"\<close>.
\<close>

theorem charge_cycles_read_ok:
  assumes "pixelstats w" and "files w kCycleCountBinsPath = Some c"
  shows "\<exists>commas pre r suf.
           logBatteryChargeCycles w =
             Some (w\<lparr>trace := trace w @
                      [FileRead kCycleCountBinsPath True, Report (ChargeCycles r)]\<rparr>) \<and>
           commas = map (\<lambda>ch. if ch = CHR '' '' then CHR '','' else ch) c \<and>
           commas = pre @ r @ suf \<and>
           (\<forall>ch \<in> set (pre @ suf). isspace ch) \<and>
           (r = [] \<or> \<not> isspace (hd r) \<and> \<not> isspace (last r)) \<and>
           (c = ''1 2 3\<newline>'' \<longrightarrow> r = ''1,2,3'')"
proof -
  let ?commas = "replace CHR '' '' CHR '','' c"
  obtain pre suf where split: "?commas = pre @ Trim ?commas @ suf"
    and ws: "\<forall>ch \<in> set (pre @ suf). isspace ch"
    using Trim_split by blast
  have run: "logBatteryChargeCycles w =
      Some (w\<lparr>trace := trace w @
          [FileRead kCycleCountBinsPath True, Report (ChargeCycles (Trim ?commas))]\<rparr>)"
    using assms by (simp add: logBatteryChargeCycles_run charge_cycle_events_def)
  have ends: "Trim ?commas = [] \<or>
      \<not> isspace (hd (Trim ?commas)) \<and> \<not> isspace (last (Trim ?commas))"
    using Trim_ends by blast
  have ex: "c = ''1 2 3\<newline>'' \<longrightarrow> Trim ?commas = ''1,2,3''"
    using Trim_replace_example(1) by blast
  have "?commas = map (\<lambda>ch. if ch = CHR '' '' then CHR '','' else ch) c"
    by (simp add: replace_def)
  with run split ws ends ex show ?thesis by blast
qed

theorem charge_cycles_read_ok_witness:
  "pixelstats (attached (sysfs [(kCycleCountBinsPath, ''1 2 3\<newline>'')])) \<and>
   files (attached (sysfs [(kCycleCountBinsPath, ''1 2 3\<newline>'')])) kCycleCountBinsPath =
     Some ''1 2 3\<newline>'' \<and>
   logBatteryChargeCycles (attached (sysfs [(kCycleCountBinsPath, ''1 2 3\<newline>'')])) =
     Some ((attached (sysfs [(kCycleCountBinsPath, ''1 2 3\<newline>'')]))
       \<lparr>trace := [FileRead kCycleCountBinsPath True, Report (ChargeCycles ''1,2,3'')]\<rparr>)"
  using charge_cycles_read_ok [of "attached (sysfs [(kCycleCountBinsPath, ''1 2 3\<newline>'')])"
      "''1 2 3\<newline>''"]
  by (auto simp add: attached_def sysfs_def)

text \<open>
  C2 as stated gives \<open>"1,2,3"\<close> for the content \<open>"1 2 3 "\<close>. The trailing space becomes a
  comma before the trim, and the trim removes white space only: the report is
  \<open>"1,2,3,"\<close>.
\<close>

theorem charge_cycles_trailing_space:
  "map_option trace
     (logBatteryChargeCycles (attached (sysfs [(kCycleCountBinsPath, ''1 2 3 '')]))) =
   Some [FileRead kCycleCountBinsPath True, Report (ChargeCycles ''1,2,3,'')]"
  by (simp add: logBatteryChargeCycles_run charge_cycle_events_def attached_def sysfs_def
      Trim_replace_example)

subsection \<open>Speaker impedance\<close>

lemma scan_g_rest:
  assumes "scan_g s = Some (v, r)"
  shows "set r \<subseteq> set s"
proof -
  have *: "\<And>c a n. (if c then None else Some (a, drop n (dropWhile isspace s))) = Some (v, r)
      \<Longrightarrow> set r \<subseteq> set (dropWhile isspace s)"
    by (auto split: if_splits dest: in_set_dropD)
  have "set r \<subseteq> set (dropWhile isspace s)"
    using assms unfolding scan_g_def Let_def by (rule *)
  then show ?thesis
    by (meson set_dropWhileD subsetD subsetI)
qed

lemma sscanf_g_g_comma:
  assumes "sscanf_g_g s = Some lr"
  shows "CHR '','' \<in> set s"
proof -
  obtain left r1 where 1: "scan_g s = Some (left, r1)"
    using assms by (auto simp: sscanf_g_g_def split: option.splits)
  then have "CHR '','' \<in> set r1"
    using assms by (auto simp: sscanf_g_g_def split: list.splits if_splits)
  then show ?thesis
    using scan_g_rest [OF 1] by blast
qed

lemma c_str_subset: "set (c_str s) \<subseteq> set s"
  by (auto simp: c_str_def dest: set_takeWhileD)

lemma sscanf_g_g_examples:
  "sscanf_g_g ''4.5,5.25'' = Some (Finite 9437184 (- 21), Finite 11010048 (- 21))"
  "sscanf_g_g ''4.5'' = None"
  "sscanf_g_g ''4.5 5.25'' = None"
  "sscanf_g_g ''0x10,1'' = Some (Finite 8388608 (- 19), Finite 8388608 (- 23))"
  by code_simp+

lemma scaled_examples:
  "f32_to_int32 (f32_mul (Finite 9437184 (- 21)) (f32_of_int 1000)) = Some 4500"
  "f32_to_int32 (f32_mul (Finite 11010048 (- 21)) (f32_of_int 1000)) = Some 5250"
  "f32_to_int32 (f32_mul (Finite 8388608 (- 19)) (f32_of_int 1000)) = Some 16000"
  "f32_to_int32 (f32_mul (Finite 8388608 (- 23)) (f32_of_int 1000)) = Some 1000"
  by code_simp+

lemma c_str_impedance_examples:
  "c_str ''4.5,5.25'' = ''4.5,5.25''" "c_str ''4.5'' = ''4.5''" "c_str ''4.5 5.25'' = ''4.5 5.25''"
  "c_str ''0x10,1'' = ''0x10,1''"
  by (simp_all add: c_str_def)

text \<open>
  C5 (as amended). For the speaker impedance, two floating values separated by a comma
  are parsed (white space may come before each value, but nothing stands in for the
  comma): when both parse there are exactly two report calls, channel 0 with the first
  value and channel 1 with the second, each scaled by 1000, so \<open>"4.5,5.25"\<close> gives
  channel 0 with 4500 and channel 1 with 5250 (and the hexadecimal \<open>"0x10,1"\<close> gives 16000
  and 1000); when the parse fails, as on every content with no comma (\<open>"4.5"\<close> alone, or
  \<open>"4.5 5.25"\<close>), there is no report call.
\<close>

theorem speaker_impedance_read_ok:
  assumes "pixelstats w" and "files w kImpedancePath = Some c"
  shows "\<exists>w'. logSpeakerImpedance w = Some w' \<and>
           reports_of (events_since w w') =
             (case sscanf_g_g (c_str c) of
                None \<Rightarrow> []
              | Some (left, right) \<Rightarrow>
                  [SpeakerImpedance 0 (f32_to_int32 (f32_mul left (f32_of_int 1000))),
                   SpeakerImpedance 1 (f32_to_int32 (f32_mul right (f32_of_int 1000)))]) \<and>
           (CHR '','' \<notin> set c \<longrightarrow> reports_of (events_since w w') = []) \<and>
           (c = ''4.5,5.25'' \<longrightarrow>
              reports_of (events_since w w') =
                [SpeakerImpedance 0 (Some 4500), SpeakerImpedance 1 (Some 5250)]) \<and>
           (c = ''4.5'' \<longrightarrow> reports_of (events_since w w') = []) \<and>
           (c = ''0x10,1'' \<longrightarrow>
              reports_of (events_since w w') =
                [SpeakerImpedance 0 (Some 16000), SpeakerImpedance 1 (Some 1000)])"
proof -
  let ?w' = "w\<lparr>trace := trace w @ impedance_events (Some c)\<rparr>"
  have run: "logSpeakerImpedance w = Some ?w'"
    using assms by (simp add: logSpeakerImpedance_run)
  have reports: "reports_of (events_since w ?w') =
      (case sscanf_g_g (c_str c) of
         None \<Rightarrow> []
       | Some (left, right) \<Rightarrow>
           [SpeakerImpedance 0 (f32_to_int32 (f32_mul left (f32_of_int 1000))),
            SpeakerImpedance 1 (f32_to_int32 (f32_mul right (f32_of_int 1000)))])"
    by (simp add: impedance_events_def split: option.split prod.split)
  have no_comma: "reports_of (events_since w ?w') = []" if "CHR '','' \<notin> set c"
  proof -
    have "CHR '','' \<notin> set (c_str c)"
      using that c_str_subset by blast
    then have "sscanf_g_g (c_str c) = None"
      using sscanf_g_g_comma by (cases "sscanf_g_g (c_str c)") blast+
    then show ?thesis
      using reports by simp
  qed
  have two: "reports_of (events_since w ?w') =
      [SpeakerImpedance 0 (Some 4500), SpeakerImpedance 1 (Some 5250)]" if "c = ''4.5,5.25''"
    using reports that
    by (simp add: c_str_impedance_examples sscanf_g_g_examples scaled_examples)
  have one: "reports_of (events_since w ?w') = []" if "c = ''4.5''"
    using reports that by (simp add: c_str_impedance_examples sscanf_g_g_examples)
  have hex: "reports_of (events_since w ?w') =
      [SpeakerImpedance 0 (Some 16000), SpeakerImpedance 1 (Some 1000)]" if "c = ''0x10,1''"
    using reports that
    by (simp add: c_str_impedance_examples sscanf_g_g_examples scaled_examples)
  show ?thesis
    using run reports no_comma two one hex by blast
qed

theorem speaker_impedance_read_ok_witness:
  "pixelstats (attached (sysfs [(kImpedancePath, ''4.5,5.25'')])) \<and>
   files (attached (sysfs [(kImpedancePath, ''4.5,5.25'')])) kImpedancePath = Some ''4.5,5.25'' \<and>
   (\<exists>w'. logSpeakerImpedance (attached (sysfs [(kImpedancePath, ''4.5,5.25'')])) = Some w' \<and>
         reports_of (events_since (attached (sysfs [(kImpedancePath, ''4.5,5.25'')])) w') =
           [SpeakerImpedance 0 (Some 4500), SpeakerImpedance 1 (Some 5250)])"
  using speaker_impedance_read_ok [of "attached (sysfs [(kImpedancePath, ''4.5,5.25'')])"
      "''4.5,5.25''"]
  by (auto simp add: attached_def sysfs_def)

text \<open>
  C5 as stated takes the two values separated by a comma or by a space. The format is
  \<open>"%g,%g"\<close>: on \<open>"4.5 5.25"\<close> the comma does not match, the parse fails and nothing is
  reported.
\<close>

theorem speaker_impedance_space_separated:
  "map_option trace
     (logSpeakerImpedance (attached (sysfs [(kImpedancePath, ''4.5 5.25'')]))) =
   Some [FileRead kImpedancePath True,
         ALOGE ''Unable to parse speaker impedance %s'' [''4.5 5.25'']]"
  by (simp add: logSpeakerImpedance_run impedance_events_def attached_def sysfs_def
      c_str_impedance_examples sscanf_g_g_examples)

subsection \<open>One cycle\<close>

lemma logSlowIO_run:
  assumes "pixelstats w"
  shows "logSlowIO w =
    Some (w\<lparr>files := counters_cleared w,
            trace := trace w @
              slowio_events kSlowioReadCntPath READ
                (files w kSlowioReadCntPath) (writable w kSlowioReadCntPath) @
              slowio_events kSlowioWriteCntPath WRITE
                (files w kSlowioWriteCntPath) (writable w kSlowioWriteCntPath) @
              slowio_events kSlowioUnmapCntPath UNMAP
                (files w kSlowioUnmapCntPath) (writable w kSlowioUnmapCntPath) @
              slowio_events kSlowioSyncCntPath SYNC
                (files w kSlowioSyncCntPath) (writable w kSlowioSyncCntPath)\<rparr>)"
  using assms
  apply (simp add: logSlowIO_def reportSlowIoFromFile_run)
  apply (simp add: cleared_def counters_cleared_def fun_eq_iff)
  done


lemma logAll_up:
  assumes "service_up w (lookups w)"
  shows "logAll w =
    Some (w\<lparr>files := counters_cleared w, lookups := lookups w + 1, pixelstats := False,
            trace := trace w @ GetService True # source_events w @ [ReleaseService]\<rparr>)"
  using assms
  apply (simp add: logAll_def tryGetService_def emit_def Let_def logBatteryChargeCycles_run
      logCodecFailed_run logSlowIO_run logSpeakerImpedance_run source_events_def)
  apply (simp add: counters_cleared_def cleared_def fun_eq_iff)
  done

lemma logAll_down:
  assumes "\<not> service_up w (lookups w)"
  shows "logAll w =
    Some (w\<lparr>lookups := lookups w + 1, pixelstats := False,
            trace := trace w @
              [GetService False, ALOGE ''Unable to connect to PixelStats service'' []]\<rparr>)"
  using assms by (simp add: logAll_def tryGetService_def emit_def Let_def)

lemma logAll_total:
  "\<exists>w'. logAll w = Some w' \<and> lookups w' = lookups w + 1 \<and> service_up w' = service_up w"
  by (cases "service_up w (lookups w)") (simp_all add: logAll_up logAll_down)

subsection \<open>The collection loop\<close>


lemma collect_loop_interrupted:
  "collect_loop rs w = collect_loop (filter (\<lambda>r. r \<noteq> Interrupted) rs) w"
  by (induction rs w rule: collect_loop.induct) (auto split: option.split)



text \<open>
  C8. If the timer cannot be created, \<open>collect\<close> logs the failure and returns before any
  cycle; if it cannot be armed, \<open>collect\<close> logs the failure and returns after the first
  cycle, whatever the timer would have done: in both cases no further cycle runs. A read
  of the timer that a signal interrupts is retried: the run is the same as if the
  interrupted reads had not happened, with no error and no cycle lost or added.
\<close>

theorem timer_failures:
  "(\<not> create_ok t \<longrightarrow>
      collect t w = Some (Returned, emit (ALOGE ''Unable to create timerfd - %s'' []) w)) \<and>
   (create_ok t \<and> \<not> settime_ok t \<longrightarrow>
      (\<exists>w1. logAll (emit (Sleep 30) w) = Some w1 \<and> lookups w1 = lookups w + 1 \<and>
            collect t w =
              Some (Returned, emit (ALOGE ''Unable to set 24hr timer - %s'' []) w1))) \<and>
   collect t w = collect (t\<lparr>reads := filter (\<lambda>r. r \<noteq> Interrupted) (reads t)\<rparr>) w \<and>
   collect_loop (Interrupted # rs) w = collect_loop rs w"
proof (intro conjI impI)
  assume "\<not> create_ok t"
  then show "collect t w = Some (Returned, emit (ALOGE ''Unable to create timerfd - %s'' []) w)"
    by (simp add: collect_def)
next
  assume a: "create_ok t \<and> \<not> settime_ok t"
  obtain w1 where w1: "logAll (emit (Sleep 30) w) = Some w1"
    and l: "lookups w1 = lookups (emit (Sleep 30) w) + 1"
    using logAll_total by blast
  have "collect t w = Some (Returned, emit (ALOGE ''Unable to set 24hr timer - %s'' []) w1)"
    using a w1 by (simp add: collect_def)
  with w1 l show "\<exists>w1. logAll (emit (Sleep 30) w) = Some w1 \<and> lookups w1 = lookups w + 1 \<and>
      collect t w = Some (Returned, emit (ALOGE ''Unable to set 24hr timer - %s'' []) w1)"
    by (simp add: emit_def)
next
  show "collect t w = collect (t\<lparr>reads := filter (\<lambda>r. r \<noteq> Interrupted) (reads t)\<rparr>) w"
    using collect_loop_interrupted [of "reads t"]
    by (simp add: collect_def split: option.split)
next
  show "collect_loop (Interrupted # rs) w = collect_loop rs w"
    by simp
qed

theorem timer_failures_witness:
  "\<not> create_ok \<lparr>create_ok = False, settime_ok = True, reads = [Expired]\<rparr> \<and>
   collect \<lparr>create_ok = False, settime_ok = True, reads = [Expired]\<rparr> (sysfs []) =
     Some (Returned, emit (ALOGE ''Unable to create timerfd - %s'' []) (sysfs [])) \<and>
   create_ok \<lparr>create_ok = True, settime_ok = False, reads = [Expired]\<rparr> \<and>
   \<not> settime_ok \<lparr>create_ok = True, settime_ok = False, reads = [Expired]\<rparr> \<and>
   (\<exists>w1. logAll (emit (Sleep 30) (sysfs [])) = Some w1 \<and> lookups w1 = 1 \<and>
         collect \<lparr>create_ok = True, settime_ok = False, reads = [Expired]\<rparr> (sysfs []) =
           Some (Returned, emit (ALOGE ''Unable to set 24hr timer - %s'' []) w1))"
  using timer_failures [of "\<lparr>create_ok = False, settime_ok = True, reads = [Expired]\<rparr>" "sysfs []" "[]"]
    timer_failures [of "\<lparr>create_ok = True, settime_ok = False, reads = [Expired]\<rparr>" "sysfs []" "[]"]
  by (simp add: sysfs_def)

subsection \<open>The order of the sources in a cycle\<close>

lemma sources_simps [simp]:
  "sources [] = []"
  "sources (e # es) = (case event_source e of None \<Rightarrow> sources es | Some p \<Rightarrow> p # sources es)"
  "sources (xs @ ys) = sources xs @ sources ys"
  by (simp_all add: sources_def List.map_filter_def split: option.split)

lemma sources_charge_cycle_events:
  "\<exists>k. sources (charge_cycle_events c) = kCycleCountBinsPath # replicate k kCycleCountBinsPath"
proof (cases c)
  case None
  then have "sources (charge_cycle_events c) = kCycleCountBinsPath # replicate 0 kCycleCountBinsPath"
    by (simp add: charge_cycle_events_def)
  then show ?thesis ..
next
  case (Some s)
  then have "sources (charge_cycle_events c) = kCycleCountBinsPath # replicate 1 kCycleCountBinsPath"
    by (simp add: charge_cycle_events_def)
  then show ?thesis ..
qed

lemma sources_codec_events:
  "\<exists>k. sources (codec_events c) = kCodecPath # replicate k kCodecPath"
proof -
  let ?p = "kCodecPath"
  let ?s = "sources (codec_events c)"
  have "?s = ?p # replicate 0 ?p \<or> ?s = ?p # replicate 1 ?p"
    by (simp add: codec_events_def split: option.split)
  then show ?thesis by blast
qed

lemma sources_slowio_events:
  "\<exists>k. sources (slowio_events (slowio_path operation) operation c can_write) =
        slowio_path operation # replicate k (slowio_path operation)"
proof -
  let ?p = "slowio_path operation"
  let ?s = "sources (slowio_events ?p operation c can_write)"
  have "?s = ?p # replicate 0 ?p \<or> ?s = ?p # replicate 1 ?p \<or> ?s = ?p # replicate 2 ?p"
    by (simp add: slowio_events_def numeral_2_eq_2 split: option.split)
  then show ?thesis by blast
qed

lemma sources_impedance_events:
  "\<exists>k. sources (impedance_events c) = kImpedancePath # replicate k kImpedancePath"
proof -
  let ?p = "kImpedancePath"
  let ?s = "sources (impedance_events c)"
  have "?s = ?p # replicate 0 ?p \<or> ?s = ?p # replicate 2 ?p"
    by (simp add: impedance_events_def numeral_2_eq_2 split: option.split prod.split)
  then show ?thesis by blast
qed

lemma remdups_adj_block:
  "p \<noteq> q \<Longrightarrow> remdups_adj (p # replicate k p @ q # ys) = p # remdups_adj (q # ys)"
  by (induction k) simp_all

lemma remdups_adj_last_block:
  "remdups_adj (p # replicate k p) = [p]"
  by (induction k) simp_all

lemma sources_source_events:
  "remdups_adj (sources (source_events w)) =
     [kCycleCountBinsPath, kCodecPath, kSlowioReadCntPath, kSlowioWriteCntPath,
      kSlowioUnmapCntPath, kSlowioSyncCntPath, kImpedancePath]"
proof -
  obtain k1 where 1: "sources (charge_cycle_events (files w kCycleCountBinsPath)) =
      kCycleCountBinsPath # replicate k1 kCycleCountBinsPath"
    using sources_charge_cycle_events by blast
  obtain k2 where 2: "sources (codec_events (files w kCodecPath)) =
      kCodecPath # replicate k2 kCodecPath"
    using sources_codec_events by blast
  obtain k3 where 3: "sources (slowio_events kSlowioReadCntPath READ
      (files w kSlowioReadCntPath) (writable w kSlowioReadCntPath)) =
      kSlowioReadCntPath # replicate k3 kSlowioReadCntPath"
    using sources_slowio_events [of READ] by auto
  obtain k4 where 4: "sources (slowio_events kSlowioWriteCntPath WRITE
      (files w kSlowioWriteCntPath) (writable w kSlowioWriteCntPath)) =
      kSlowioWriteCntPath # replicate k4 kSlowioWriteCntPath"
    using sources_slowio_events [of WRITE] by auto
  obtain k5 where 5: "sources (slowio_events kSlowioUnmapCntPath UNMAP
      (files w kSlowioUnmapCntPath) (writable w kSlowioUnmapCntPath)) =
      kSlowioUnmapCntPath # replicate k5 kSlowioUnmapCntPath"
    using sources_slowio_events [of UNMAP] by auto
  obtain k6 where 6: "sources (slowio_events kSlowioSyncCntPath SYNC
      (files w kSlowioSyncCntPath) (writable w kSlowioSyncCntPath)) =
      kSlowioSyncCntPath # replicate k6 kSlowioSyncCntPath"
    using sources_slowio_events [of SYNC] by auto
  obtain k7 where 7: "sources (impedance_events (files w kImpedancePath)) =
      kImpedancePath # replicate k7 kImpedancePath"
    using sources_impedance_events by blast
  show ?thesis
    unfolding source_events_def sources_simps(3) 1 2 3 4 5 6 7
    by (simp only: remdups_adj_block remdups_adj_last_block path_neq append_Cons append_Nil
        not_False_eq_True)
qed

lemma no_release_in_source_events:
  "ReleaseService \<notin> set (source_events w)"
proof -
  have "ReleaseService \<notin> set (charge_cycle_events c)" for c
    by (simp add: charge_cycle_events_def split: option.split)
  moreover have "ReleaseService \<notin> set (codec_events c)" for c
    by (simp add: codec_events_def split: option.split)
  moreover have "ReleaseService \<notin> set (slowio_events p operation c can_write)"
    for p operation c can_write
    by (simp add: slowio_events_def split: option.split)
  moreover have "ReleaseService \<notin> set (impedance_events c)" for c
    by (simp add: impedance_events_def split: option.split prod.split)
  ultimately show ?thesis
    by (simp add: source_events_def)
qed

text \<open>
  C7. In every cycle in which the service handle is acquired, the sources are processed
  in this fixed order: charge cycles, codec state, the slow-I/O counters for read, write,
  unmap and sync, speaker impedance. The file accesses and reports of one source are all
  made before those of the next begin, and the handle is released at the end of the
  cycle whatever the sources did.
\<close>

theorem cycle_order:
  assumes "service_up w (lookups w)"
  shows "\<exists>w' es. logAll w = Some w' \<and>
           events_since w w' = GetService True # es @ [ReleaseService] \<and>
           remdups_adj (sources es) =
             [kCycleCountBinsPath, kCodecPath, kSlowioReadCntPath, kSlowioWriteCntPath,
              kSlowioUnmapCntPath, kSlowioSyncCntPath, kImpedancePath] \<and>
           ReleaseService \<notin> set es \<and>
           \<not> pixelstats w'"
proof -
  let ?w' = "w\<lparr>files := counters_cleared w, lookups := lookups w + 1, pixelstats := False,
      trace := trace w @ GetService True # source_events w @ [ReleaseService]\<rparr>"
  have "logAll w = Some ?w'"
    using assms by (rule logAll_up)
  moreover have "events_since w ?w' = GetService True # source_events w @ [ReleaseService]"
    by simp
  moreover have "ReleaseService \<notin> set (source_events w)"
    by (rule no_release_in_source_events)
  moreover have "\<not> pixelstats ?w'"
    by simp
  ultimately show ?thesis
    using sources_source_events by blast
qed


theorem cycle_order_witness:
  "service_up (sysfs [(kCodecPath, ''1''), (kSlowioReadCntPath, ''5'')])
     (lookups (sysfs [(kCodecPath, ''1''), (kSlowioReadCntPath, ''5'')])) \<and>
   (\<exists>w' es. logAll (sysfs [(kCodecPath, ''1''), (kSlowioReadCntPath, ''5'')]) = Some w' \<and>
      events_since (sysfs [(kCodecPath, ''1''), (kSlowioReadCntPath, ''5'')]) w' =
        GetService True # es @ [ReleaseService] \<and>
      remdups_adj (sources es) =
        [kCycleCountBinsPath, kCodecPath, kSlowioReadCntPath, kSlowioWriteCntPath,
         kSlowioUnmapCntPath, kSlowioSyncCntPath, kImpedancePath] \<and>
      ReleaseService \<notin> set es \<and>
      \<not> pixelstats w')"
  using cycle_order [of "sysfs [(kCodecPath, ''1''), (kSlowioReadCntPath, ''5'')]"]
  by (simp add: sysfs_def)

subsection \<open>The sources do not affect one another\<close>

lemma about_simps [simp]:
  "about p [] = []"
  "about p (e # es) = (if event_source e = Some p then e # about p es else about p es)"
  "about p (xs @ ys) = about p xs @ about p ys"
  by (simp_all add: about_def)

lemma about_charge_cycle_events:
  "p \<noteq> kCycleCountBinsPath \<Longrightarrow> about p (charge_cycle_events c) = []"
  by (auto simp add: charge_cycle_events_def split: option.split)

lemma about_codec_events:
  "p \<noteq> kCodecPath \<Longrightarrow> about p (codec_events c) = []"
  by (auto simp add: codec_events_def split: option.split)

lemma about_slowio_events:
  "p \<noteq> slowio_path operation \<Longrightarrow>
   about p (slowio_events (slowio_path operation) operation c can_write) = []"
  by (auto simp add: slowio_events_def split: option.split)

lemma about_impedance_events:
  "p \<noteq> kImpedancePath \<Longrightarrow> about p (impedance_events c) = []"
  by (auto simp add: impedance_events_def split: option.split prod.split)

lemma about_source_events:
  assumes "files w p = files v p" and "writable w p = writable v p"
  shows "about p (source_events w) = about p (source_events v)"
proof -
  have 1: "about p (charge_cycle_events (files w kCycleCountBinsPath)) =
      about p (charge_cycle_events (files v kCycleCountBinsPath))"
    using assms by (cases "p = kCycleCountBinsPath") (simp_all add: about_charge_cycle_events)
  have 2: "about p (codec_events (files w kCodecPath)) = about p (codec_events (files v kCodecPath))"
    using assms by (cases "p = kCodecPath") (simp_all add: about_codec_events)
  have 3: "about p (slowio_events (slowio_path operation) operation
        (files w (slowio_path operation)) (writable w (slowio_path operation))) =
      about p (slowio_events (slowio_path operation) operation
        (files v (slowio_path operation)) (writable v (slowio_path operation)))"
    for operation
    using assms by (cases "p = slowio_path operation") (simp_all add: about_slowio_events)
  have 4: "about p (impedance_events (files w kImpedancePath)) =
      about p (impedance_events (files v kImpedancePath))"
    using assms by (cases "p = kImpedancePath") (simp_all add: about_impedance_events)
  show ?thesis
    using 1 2 3 [of READ] 3 [of WRITE] 3 [of UNMAP] 3 [of SYNC] 4
    by (simp add: source_events_def)
qed

lemma about_own_events:
  "about kCycleCountBinsPath (charge_cycle_events c) = effects (charge_cycle_events c)"
  "about kCodecPath (codec_events c) = effects (codec_events c)"
  "about (slowio_path operation) (slowio_events (slowio_path operation) operation c can_write) =
     effects (slowio_events (slowio_path operation) operation c can_write)"
  "about kImpedancePath (impedance_events c) = effects (impedance_events c)"
  by (simp_all add: charge_cycle_events_def codec_events_def slowio_events_def
      impedance_events_def split: option.split prod.split)

lemma reads_of_events:
  "filter is_read (charge_cycle_events c) = [FileRead kCycleCountBinsPath (c \<noteq> None)]"
  "filter is_read (codec_events c) = [FileRead kCodecPath (c \<noteq> None)]"
  "filter is_read (slowio_events p operation c can_write) = [FileRead p (c \<noteq> None)]"
  "filter is_read (impedance_events c) = [FileRead kImpedancePath (c \<noteq> None)]"
  by (simp_all add: charge_cycle_events_def codec_events_def slowio_events_def
      impedance_events_def split: option.split prod.split)

lemma about_in_source_events:
  "about kCycleCountBinsPath (source_events w) =
     effects (charge_cycle_events (files w kCycleCountBinsPath))"
  "about kCodecPath (source_events w) = effects (codec_events (files w kCodecPath))"
  "about (slowio_path operation) (source_events w) =
     effects (slowio_events (slowio_path operation) operation
       (files w (slowio_path operation)) (writable w (slowio_path operation)))"
  "about kImpedancePath (source_events w) = effects (impedance_events (files w kImpedancePath))"
proof -
  note other = about_charge_cycle_events about_codec_events about_impedance_events
    about_slowio_events [of _ READ, simplified] about_slowio_events [of _ WRITE, simplified]
    about_slowio_events [of _ UNMAP, simplified] about_slowio_events [of _ SYNC, simplified]
  note own = about_own_events(1,2,4) about_own_events(3) [of READ, simplified]
    about_own_events(3) [of WRITE, simplified] about_own_events(3) [of UNMAP, simplified]
    about_own_events(3) [of SYNC, simplified]
  show "about kCycleCountBinsPath (source_events w) =
      effects (charge_cycle_events (files w kCycleCountBinsPath))"
    by (simp add: source_events_def other own)
  show "about kCodecPath (source_events w) = effects (codec_events (files w kCodecPath))"
    by (simp add: source_events_def other own)
  show "about kImpedancePath (source_events w) =
      effects (impedance_events (files w kImpedancePath))"
    by (simp add: source_events_def other own)
  show "about (slowio_path operation) (source_events w) =
      effects (slowio_events (slowio_path operation) operation
        (files w (slowio_path operation)) (writable w (slowio_path operation)))"
    by (cases operation) (simp_all add: source_events_def other own)
qed

lemma cleared_self:
  "cleared p w p = (if files w p \<noteq> None \<and> writable w p then Some ''0'' else files w p)"
  by (simp add: cleared_def)

lemma counters_cleared_agree:
  assumes "files w p = files v p" and "writable w p = writable v p"
  shows "counters_cleared w p = counters_cleared v p"
  unfolding counters_cleared_def cleared_self by (simp only: assms)

text \<open>
  C6. Within a cycle, what happens to one source (its file cannot be read, its content
  does not parse, its counter cannot be reset) does not keep any other source from being
  read and reported. Whatever the files hold, every one of the seven sources is read
  once, in the fixed order, and the reads, reports and writes made for each source are
  exactly those its own method makes for the content of its own file: the others have no
  part in them. So two worlds that agree on one source give the same events for it and
  leave its file the same, however they differ on the others.
\<close>

theorem sources_independent:
  assumes "service_up w (lookups w)"
  shows "\<exists>w'. logAll w = Some w' \<and>
           filter is_read (events_since w w') =
             map (\<lambda>p. FileRead p (files w p \<noteq> None))
               [kCycleCountBinsPath, kCodecPath, kSlowioReadCntPath, kSlowioWriteCntPath,
                kSlowioUnmapCntPath, kSlowioSyncCntPath, kImpedancePath] \<and>
           about kCycleCountBinsPath (events_since w w') =
             effects (charge_cycle_events (files w kCycleCountBinsPath)) \<and>
           about kCodecPath (events_since w w') = effects (codec_events (files w kCodecPath)) \<and>
           (\<forall>operation.
              about (slowio_path operation) (events_since w w') =
                effects (slowio_events (slowio_path operation) operation
                  (files w (slowio_path operation)) (writable w (slowio_path operation)))) \<and>
           about kImpedancePath (events_since w w') =
             effects (impedance_events (files w kImpedancePath)) \<and>
           files w' = counters_cleared w \<and>
           (\<forall>v p. service_up v (lookups v) \<and> files v p = files w p \<and>
                  writable v p = writable w p \<longrightarrow>
              (\<exists>v'. logAll v = Some v' \<and>
                    about p (events_since v v') = about p (events_since w w') \<and>
                    files v' p = files w' p))"
proof -
  let ?w' = "w\<lparr>files := counters_cleared w, lookups := lookups w + 1, pixelstats := False,
      trace := trace w @ GetService True # source_events w @ [ReleaseService]\<rparr>"
  have run: "logAll w = Some ?w'"
    using assms by (simp add: logAll_up)
  have events: "events_since w ?w' = GetService True # source_events w @ [ReleaseService]"
    by simp
  have reads: "filter is_read (events_since w ?w') =
      map (\<lambda>p. FileRead p (files w p \<noteq> None))
        [kCycleCountBinsPath, kCodecPath, kSlowioReadCntPath, kSlowioWriteCntPath,
         kSlowioUnmapCntPath, kSlowioSyncCntPath, kImpedancePath]"
    unfolding events by (simp add: source_events_def reads_of_events)
  have own: "about kCycleCountBinsPath (events_since w ?w') =
        effects (charge_cycle_events (files w kCycleCountBinsPath))"
      "about kCodecPath (events_since w ?w') = effects (codec_events (files w kCodecPath))"
      "about kImpedancePath (events_since w ?w') =
        effects (impedance_events (files w kImpedancePath))"
    unfolding events by (simp_all add: about_in_source_events)
  have counters: "about (slowio_path operation) (events_since w ?w') =
      effects (slowio_events (slowio_path operation) operation
        (files w (slowio_path operation)) (writable w (slowio_path operation)))"
    for operation
    unfolding events by (simp add: about_in_source_events)
  have files: "files ?w' = counters_cleared w"
    by simp
  have other: "\<exists>v'. logAll v = Some v' \<and>
      about p (events_since v v') = about p (events_since w ?w') \<and> files v' p = files ?w' p"
    if "service_up v (lookups v) \<and> files v p = files w p \<and> writable v p = writable w p"
    for v p
  proof -
    let ?v' = "v\<lparr>files := counters_cleared v, lookups := lookups v + 1, pixelstats := False,
        trace := trace v @ GetService True # source_events v @ [ReleaseService]\<rparr>"
    have "logAll v = Some ?v'"
      using that by (simp add: logAll_up)
    moreover have "about p (events_since v ?v') = about p (events_since w ?w')"
      using about_source_events [of v p w] that by simp
    moreover have "files ?v' p = files ?w' p"
      using counters_cleared_agree [of v p w] that by simp
    ultimately show ?thesis by blast
  qed
  from run reads own counters files other show ?thesis
    by blast
qed

theorem sources_independent_witness:
  "service_up (sysfs [(kCodecPath, ''1''), (kSlowioReadCntPath, ''5'')])
     (lookups (sysfs [(kCodecPath, ''1''), (kSlowioReadCntPath, ''5'')])) \<and>
   (\<exists>w'. logAll (sysfs [(kCodecPath, ''1''), (kSlowioReadCntPath, ''5'')]) = Some w' \<and>
      filter is_read (events_since (sysfs [(kCodecPath, ''1''), (kSlowioReadCntPath, ''5'')]) w') =
        [FileRead kCycleCountBinsPath False, FileRead kCodecPath True,
         FileRead kSlowioReadCntPath True, FileRead kSlowioWriteCntPath False,
         FileRead kSlowioUnmapCntPath False, FileRead kSlowioSyncCntPath False,
         FileRead kImpedancePath False] \<and>
      about kCycleCountBinsPath
        (events_since (sysfs [(kCodecPath, ''1''), (kSlowioReadCntPath, ''5'')]) w') =
        [FileRead kCycleCountBinsPath False] \<and>
      about kCodecPath
        (events_since (sysfs [(kCodecPath, ''1''), (kSlowioReadCntPath, ''5'')]) w') =
        [FileRead kCodecPath True, Report (HardwareFailed CODEC 0 COMPLETE)] \<and>
      about kSlowioReadCntPath
        (events_since (sysfs [(kCodecPath, ''1''), (kSlowioReadCntPath, ''5'')]) w') =
        [FileRead kSlowioReadCntPath True, Report (SlowIo READ 5),
         FileWrite kSlowioReadCntPath ''0'' True])"
proof -
  let ?w = "sysfs [(kCodecPath, ''1''), (kSlowioReadCntPath, ''5'')]"
  have up: "service_up ?w (lookups ?w)"
    by (simp add: sysfs_def)
  from sources_independent [OF up] obtain w' where
    run: "logAll ?w = Some w'" and
    reads: "filter is_read (events_since ?w w') =
      map (\<lambda>p. FileRead p (files ?w p \<noteq> None))
        [kCycleCountBinsPath, kCodecPath, kSlowioReadCntPath, kSlowioWriteCntPath,
         kSlowioUnmapCntPath, kSlowioSyncCntPath, kImpedancePath]" and
    cycles: "about kCycleCountBinsPath (events_since ?w w') =
      effects (charge_cycle_events (files ?w kCycleCountBinsPath))" and
    codec: "about kCodecPath (events_since ?w w') = effects (codec_events (files ?w kCodecPath))" and
    counters: "\<forall>operation.
      about (slowio_path operation) (events_since ?w w') =
        effects (slowio_events (slowio_path operation) operation
          (files ?w (slowio_path operation)) (writable ?w (slowio_path operation)))"
    by blast
  have 1: "filter is_read (events_since ?w w') =
      [FileRead kCycleCountBinsPath False, FileRead kCodecPath True,
       FileRead kSlowioReadCntPath True, FileRead kSlowioWriteCntPath False,
       FileRead kSlowioUnmapCntPath False, FileRead kSlowioSyncCntPath False,
       FileRead kImpedancePath False]"
    using reads by (simp add: sysfs_def)
  have 2: "about kCycleCountBinsPath (events_since ?w w') = [FileRead kCycleCountBinsPath False]"
    using cycles by (simp add: sysfs_def charge_cycle_events_def)
  have 3: "about kCodecPath (events_since ?w w') =
      [FileRead kCodecPath True, Report (HardwareFailed CODEC 0 COMPLETE)]"
    using codec by (simp add: sysfs_def codec_events_def)
  have 4: "about kSlowioReadCntPath (events_since ?w w') =
      [FileRead kSlowioReadCntPath True, Report (SlowIo READ 5),
       FileWrite kSlowioReadCntPath ''0'' True]"
    using counters [rule_format, of READ]
    by (simp add: sysfs_def slowio_events_def c_str_examples sscanf_d_examples)
  from up run 1 2 3 4 show ?thesis
    by blast
qed

end
